theory Spec2Isabelle
  imports Complex_Main "HOL-Library.Word" "HOL-Library.Signed_Division"
begin

unbundle bit_operations_syntax

chapter \<open>fpDSP: fixed-point angle arithmetic and the circular sample buffer\<close>

text \<open>
  A shallow embedding of the macros of \<^verbatim>\<open>DSP.h\<close> and of the sample buffer of
  \<^verbatim>\<open>samples.h\<close> / \<^verbatim>\<open>samples.cpp\<close>. Fixed-width C integers are words: \<open>uint8_t\<close> is
  \<open>8 word\<close>, \<open>uint16_t\<close> and \<open>int16_t\<close> are \<open>16 word\<close> (read with \<open>uint\<close>/\<open>unat\<close>, resp.
  \<open>sint\<close>), \<open>uint32_t\<close> and \<open>int32_t\<close> are \<open>32 word\<close>. Word arithmetic wraps as the C
  arithmetic on the unsigned types does.
\<close>

section \<open>Types and constants of DSP.h\<close>

type_synonym BAM8 = "8 word"
type_synonym BAM16 = "16 word"
type_synonym Q_15 = "16 word"
type_synonym Q16_15 = "32 word"

definition Q15_ZERO :: Q_15 where
  "Q15_ZERO = 0x0000"

definition Q15_ONE :: Q_15 where
  "Q15_ONE = 0x7FFF"

definition BAM16_PI_RADIANS :: BAM16 where
  "BAM16_PI_RADIANS = 0x8000"

definition BAM16_0_DEGREES :: BAM16 where
  "BAM16_0_DEGREES = 0x0000"

definition BAM16_270_DEGREES :: BAM16 where
  "BAM16_270_DEGREES = 0xC000"

definition BAM16_180_DEGREES :: BAM16 where
  "BAM16_180_DEGREES = BAM16_PI_RADIANS"

definition BAM16_90_DEGREES :: BAM16 where
  "BAM16_90_DEGREES = 0x4000"

definition BAM16_45_DEGREES :: BAM16 where
  "BAM16_45_DEGREES = BAM16_90_DEGREES div 2"

section \<open>BAM conversions\<close>

text \<open>
  \<^verbatim>\<open>#define DEG2BAM16(X) ((BAM16)(((X)*BAM16_45_DEGREES)/45))\<close>

  The macro casts nothing before it multiplies, so the product and the quotient are
  computed in the type that the usual arithmetic conversions give to
  \<open>int * uint16_t\<close>, and that type depends on the width of \<open>int\<close>:
  \<^item> where \<open>int\<close> has 16 bits (avr-gcc, the compiler of the ATmega boards whose timer
    and ADC registers \<^verbatim>\<open>samples.cpp\<close> programs), \<open>uint16_t\<close> is \<open>unsigned int\<close>; \<open>X\<close> is
    converted to \<open>unsigned int\<close>, the product wraps modulo \<open>2^16\<close> and the division is
    unsigned;
  \<^item> where \<open>int\<close> has 32 bits, \<open>BAM16_45_DEGREES\<close> is promoted to \<open>int\<close>; the product is
    signed (an overflow is undefined behaviour: \<open>None\<close>) and the division truncates
    towards zero (\<open>sdiv\<close>).
  \<open>X\<close> is the value of an argument of type \<open>int\<close>; a value that \<open>int\<close> cannot hold is no
  argument (\<open>None\<close>). The cast to \<open>BAM16\<close> reduces modulo \<open>2^16\<close> (\<open>word_of_int\<close>).
\<close>

datatype int_width = Int16 | Int32

definition int_bits :: "int_width \<Rightarrow> nat" where
  "int_bits w = (case w of Int16 \<Rightarrow> 16 | Int32 \<Rightarrow> 32)"

definition int_fits :: "int_width \<Rightarrow> int \<Rightarrow> bool" where
  "int_fits w v = (- (2 ^ (int_bits w - 1)) \<le> v \<and> v < 2 ^ (int_bits w - 1))"

definition DEG2BAM16 :: "int_width \<Rightarrow> int \<Rightarrow> BAM16 option" where
  "DEG2BAM16 w X =
     (if int_fits w X then
        (case w of
           Int16 \<Rightarrow>
             Some (word_of_int ((((X mod 2 ^ 16) * uint BAM16_45_DEGREES) mod 2 ^ 16) div 45))
         | Int32 \<Rightarrow>
             (if int_fits Int32 (X * uint BAM16_45_DEGREES)
              then Some (word_of_int ((X * uint BAM16_45_DEGREES) sdiv 45))
              else None))
      else None)"

text \<open>
  \<^verbatim>\<open>#define BAM8toBAM16(X) ((BAM16)((X)<<8))\<close>,
  \<^verbatim>\<open>#define BAM16toBAM8(X) ((BAM8)((X)>>8))\<close>

  The operand is promoted before the shift; the promoted type has at least 16 bits and
  the cast keeps the low 16 (resp. 8) bits, so the result is the shift of the 16-bit
  value whatever the width of \<open>int\<close>.
\<close>

definition BAM8toBAM16 :: "BAM8 \<Rightarrow> BAM16" where
  "BAM8toBAM16 X = push_bit 8 (ucast X :: 16 word)"

definition BAM16toBAM8 :: "BAM16 \<Rightarrow> BAM8" where
  "BAM16toBAM8 X = ucast (drop_bit 8 X)"

text \<open>
  \<^verbatim>\<open>#define FREQUENCY_HZtoBAM16_PER_SAMPLE( HZ, SAMPLE_RATE )
      ((BAM16)(((uint32_t)(HZ) << 16)/(SAMPLE_RATE)))\<close>

  \<open>HZ\<close> is the value of \<open>(uint32_t)(HZ)\<close>; \<open>SAMPLE_RATE\<close> is an integer that the division
  converts to \<open>uint32_t\<close>. The shift wraps modulo \<open>2^32\<close>, the division is the unsigned
  integer division of C, and a division by zero is undefined behaviour (\<open>None\<close>).
\<close>

definition FREQUENCY_HZtoBAM16_PER_SAMPLE :: "32 word \<Rightarrow> 32 word \<Rightarrow> BAM16 option" where
  "FREQUENCY_HZtoBAM16_PER_SAMPLE HZ SAMPLE_RATE =
     (if SAMPLE_RATE = 0 then None
      else Some (ucast (push_bit 16 HZ div SAMPLE_RATE)))"

text \<open>
  The contract that the specification words for the same macro: the quotient rounded
  to the nearest integer, reduced to 16 bits. It is stated here only to be compared
  with the macro.
\<close>

definition rounded_increment :: "32 word \<Rightarrow> 32 word \<Rightarrow> BAM16" where
  "rounded_increment HZ SAMPLE_RATE =
     word_of_int (round (real (unat HZ) * 2 ^ 16 / real (unat SAMPLE_RATE)))"

section \<open>BAM16 quadrant tests\<close>

text \<open>
  The masks are \<open>unsigned\<close> constants and only bits 14 and 15 of the operand are read;
  bit 15 of \<open>X - 0x4000U\<close> and of \<open>X + 0x4000U\<close> is the same in 16-bit and in 32-bit
  unsigned arithmetic, so the tests are modelled on the 16-bit angle. In C a test is
  true when its value is not zero; \<open>!e\<close> is \<open>e = 0\<close>.
\<close>

definition BAM16_Quad4 :: "BAM16 \<Rightarrow> bool" where
  "BAM16_Quad4 X = (0xC000 = X AND 0xC000)"

definition BAM16_Quad3 :: "BAM16 \<Rightarrow> bool" where
  "BAM16_Quad3 X = (0x8000 = X AND 0xC000)"

definition BAM16_Quad2 :: "BAM16 \<Rightarrow> bool" where
  "BAM16_Quad2 X = (0x4000 = X AND 0xC000)"

definition BAM16_Quad1 :: "BAM16 \<Rightarrow> bool" where
  "BAM16_Quad1 X = (0x0000 = X AND 0xC000)"

definition BAM16_Quad12 :: "BAM16 \<Rightarrow> bool" where
  "BAM16_Quad12 X = (X AND 0x8000 = 0)"

definition BAM16_Quad13 :: "BAM16 \<Rightarrow> bool" where
  "BAM16_Quad13 X = (X AND 0x4000 = 0)"

definition BAM16_Quad14 :: "BAM16 \<Rightarrow> bool" where
  "BAM16_Quad14 X = BAM16_Quad12 (X + 0x4000)"

definition BAM16_Quad23 :: "BAM16 \<Rightarrow> bool" where
  "BAM16_Quad23 X = BAM16_Quad12 (X - 0x4000)"

definition BAM16_Quad24 :: "BAM16 \<Rightarrow> bool" where
  "BAM16_Quad24 X = (\<not> BAM16_Quad13 X)"

definition BAM16_Quad34 :: "BAM16 \<Rightarrow> bool" where
  "BAM16_Quad34 X = (\<not> BAM16_Quad12 X)"

section \<open>Fixed point multiplication\<close>

text \<open>
  \<^verbatim>\<open>#define Q15_mult(A,B) ((((int32_t)(A))*((int32_t)(B)))>>15)\<close>

  Both operands are sign-extended to 32 bits (\<open>scast\<close>); \<open>>>\<close> on a signed operand is
  the arithmetic shift (\<open>signed_drop_bit\<close>), as gcc defines it. The product of two
  16-bit values cannot overflow 32 bits (lemma \<open>Q15_product_no_overflow\<close> below).
\<close>

definition Q15_mult :: "Q_15 \<Rightarrow> Q_15 \<Rightarrow> Q16_15" where
  "Q15_mult A B = signed_drop_bit 15 ((scast A :: 32 word) * (scast B :: 32 word))"

section \<open>The circular sample buffer\<close>

text \<open>
  \<^verbatim>\<open>typedef struct SampleBuffer
  { uint16_t buff[SAMPLE_BUFFER_SIZE]; uint8_t in; uint8_t out; } SampleBuffer;\<close>

  The array has 256 cells and is only ever indexed by the \<open>uint8_t\<close> fields, so it is a
  total function on \<open>8 word\<close>. The fields \<open>in\<close> and \<open>out\<close> are named \<open>in_idx\<close> and
  \<open>out_idx\<close> (\<open>in\<close> is reserved in terms). \<open>int\<close> results and counts are \<open>int\<close>: the only
  arithmetic on them is the loop counter, which stays below \<open>count\<close>.
\<close>

definition SAMPLE_BUFFER_SIZE :: int where
  "SAMPLE_BUFFER_SIZE = 256"

record SampleBuffer =
  buff :: "8 word \<Rightarrow> 16 word"
  in_idx :: "8 word"
  out_idx :: "8 word"

definition SampleBuffer_init :: "SampleBuffer \<Rightarrow> SampleBuffer" where
  "SampleBuffer_init sb = sb\<lparr>in_idx := 0, out_idx := 0\<rparr>"

text \<open>
  \<^verbatim>\<open>uint8_t tmp = sb->in - sb->out;\<close> and \<^verbatim>\<open>uint8_t tmp = ~sb->in + sb->out;\<close>: the
  operands are promoted to \<open>int\<close> and the assignment to \<open>tmp\<close> keeps the low 8 bits, which
  are those of the 8-bit operation. The \<open>int\<close> returned is the unsigned value of \<open>tmp\<close>.
\<close>

definition SampleBuffer_size :: "SampleBuffer \<Rightarrow> int" where
  "SampleBuffer_size sb = uint (in_idx sb - out_idx sb)"

definition SampleBuffer_free :: "SampleBuffer \<Rightarrow> int" where
  "SampleBuffer_free sb = uint (NOT (in_idx sb) + out_idx sb)"

definition SampleBuffer_empty :: "SampleBuffer \<Rightarrow> bool" where
  "SampleBuffer_empty sb = (in_idx sb = out_idx sb)"

definition SampleBuffer_full :: "SampleBuffer \<Rightarrow> bool" where
  "SampleBuffer_full sb = (NOT (in_idx sb) + out_idx sb = 0)"

text \<open>
  \<^verbatim>\<open>sb->buff[sb->in++]=sample;\<close> stores at the old \<open>in\<close> and then advances it;
  \<^verbatim>\<open>return sb->buff[sb->out++];\<close> reads at the old \<open>out\<close> and then advances it. Neither
  checks for a full or an empty buffer.
\<close>

definition SampleBuffer_push :: "SampleBuffer \<Rightarrow> 16 word \<Rightarrow> SampleBuffer" where
  "SampleBuffer_push sb sample =
     sb\<lparr>buff := (buff sb)(in_idx sb := sample), in_idx := in_idx sb + 1\<rparr>"

definition SampleBuffer_pop :: "SampleBuffer \<Rightarrow> 16 word \<times> SampleBuffer" where
  "SampleBuffer_pop sb = (buff sb (out_idx sb), sb\<lparr>out_idx := out_idx sb + 1\<rparr>)"

text \<open>
  The caller's array \<open>buf\<close> is a list. The loops of the two transfer functions start
  at \<open>i = 0\<close> and visit \<open>buf[0]\<close>, ..., \<open>buf[count - 1]\<close>; an access past the end of the caller's array is
  undefined behaviour in C and \<open>None\<close> here. A \<open>Q_15\<close> sample and a \<open>uint16_t\<close> cell hold
  the same 16 bits, so the conversions between them are the identity on \<open>16 word\<close>.
\<close>

function popAllOrNothing_loop ::
  "int \<Rightarrow> int \<Rightarrow> SampleBuffer \<Rightarrow> Q_15 list \<Rightarrow> (SampleBuffer \<times> Q_15 list) option" where
  "popAllOrNothing_loop i count sb buf =
     (if i < count then
        (if nat i < length buf then
           popAllOrNothing_loop (i + 1) count (snd (SampleBuffer_pop sb))
             (buf[nat i := fst (SampleBuffer_pop sb)])
         else None)
      else Some (sb, buf))"
  by pat_completeness auto
termination
  by (relation "measure (\<lambda>(i, count, sb, buf). nat (count - i))") auto

definition SampleBuffer_popAllOrNothing ::
  "SampleBuffer \<Rightarrow> Q_15 list \<Rightarrow> int \<Rightarrow> (int \<times> SampleBuffer \<times> Q_15 list) option" where
  "SampleBuffer_popAllOrNothing sb buf count =
     (if SampleBuffer_size sb < count then Some (0, sb, buf)
      else
        (case popAllOrNothing_loop 0 count sb buf of
           None \<Rightarrow> None
         | Some (sb', buf') \<Rightarrow> Some (count, sb', buf')))"

function pushAllOrNothing_loop ::
  "int \<Rightarrow> int \<Rightarrow> SampleBuffer \<Rightarrow> Q_15 list \<Rightarrow> SampleBuffer option" where
  "pushAllOrNothing_loop i count sb buf =
     (if i < count then
        (if nat i < length buf then
           pushAllOrNothing_loop (i + 1) count (SampleBuffer_push sb (buf ! nat i)) buf
         else None)
      else Some sb)"
  by pat_completeness auto
termination
  by (relation "measure (\<lambda>(i, count, sb, buf). nat (count - i))") auto

definition SampleBuffer_pushAllOrNothing ::
  "SampleBuffer \<Rightarrow> Q_15 list \<Rightarrow> int \<Rightarrow> (int \<times> SampleBuffer) option" where
  "SampleBuffer_pushAllOrNothing sb buf count =
     (if SampleBuffer_free sb < count then Some (0, sb)
      else
        (case pushAllOrNothing_loop 0 count sb buf of
           None \<Rightarrow> None
         | Some sb' \<Rightarrow> Some (count, sb')))"

text \<open>
  The samples a buffer holds, oldest first: the cells from \<open>out\<close> up to, but not
  including, \<open>in\<close>. This is the abstract value the transfer functions are specified on.
\<close>

definition SampleBuffer_contents :: "SampleBuffer \<Rightarrow> 16 word list" where
  "SampleBuffer_contents sb =
     map (\<lambda>k. buff sb (out_idx sb + of_nat k)) [0..<nat (SampleBuffer_size sb)]"


declare popAllOrNothing_loop.simps [simp del]
declare pushAllOrNothing_loop.simps [simp del]

text \<open>
  A concrete state for evaluating the functions: the samples 5 and 7 are stored in
  cells 0 and 1, \<open>out\<close> is 0 and \<open>in\<close> is 2.
\<close>

definition example_buffer :: SampleBuffer where
  "example_buffer = \<lparr>buff = (\<lambda>_. 0)(0 := 5, 1 := 7), in_idx = 2, out_idx = 0\<rparr>"

chapter \<open>Properties\<close>

section \<open>Fixed point multiplication\<close>

lemma sint16_abs: "\<bar>sint (a :: 16 word)\<bar> \<le> 32768"
  using sint_ge [of a] sint_lt [of a] by simp

lemma Q15_product_abs: "\<bar>sint (a :: 16 word) * sint (b :: 16 word)\<bar> \<le> 1073741824"
proof -
  have "\<bar>sint a\<bar> * \<bar>sint b\<bar> \<le> 32768 * 32768"
    by (rule mult_mono) (simp_all add: sint16_abs)
  then show ?thesis by (simp add: abs_mult)
qed

text \<open>The 32-bit product of two sign-extended 16-bit operands is the exact product.\<close>

lemma Q15_product_no_overflow:
  "sint ((scast (a :: 16 word) :: 32 word) * scast (b :: 16 word)) = sint a * sint b"
proof -
  have "- (2 ^ 31) \<le> sint a * sint b \<and> sint a * sint b < 2 ^ 31"
    using Q15_product_abs [of a b] by (simp add: abs_le_iff)
  then have "signed_take_bit 31 (sint a * sint b) = sint a * sint b"
    by (simp add: signed_take_bit_int_eq_self)
  then show ?thesis
    by (simp add: sint_word_mult sint_up_scast is_up)
qed

lemma sint_Q15_mult: "sint (Q15_mult a b) = (sint a * sint b) div 2 ^ 15"
  by (simp add: Q15_mult_def sint_signed_drop_bit_eq Q15_product_no_overflow drop_bit_eq_div)

text \<open>
  Claim C3. For all \<open>Q_15\<close> values \<open>a\<close> and \<open>b\<close>, \<open>Q15_mult(a, b)\<close> is the exact product of
  the two signed values divided by \<open>2^15\<close> and rounded towards minus infinity, for negative
  as for non-negative products. (\<open>div\<close> on \<open>int\<close> rounds towards minus infinity; the
  second conjunct says the same with the floor of the real quotient.)
\<close>

theorem Q15_mult_floor:
  "sint (Q15_mult a b) = (sint a * sint b) div 2 ^ 15 \<and>
   sint (Q15_mult a b) = \<lfloor>real_of_int (sint a * sint b) / 2 ^ 15\<rfloor>"
proof -
  have "\<lfloor>real_of_int (sint a * sint b) / real_of_int (2 ^ 15)\<rfloor> = (sint a * sint b) div 2 ^ 15"
    by (rule floor_divide_of_int_eq)
  then show ?thesis by (simp add: sint_Q15_mult)
qed

text \<open>
  Claim C7. \<open>Q15_mult(Q15_ONE, Q15_ONE)\<close> is \<open>0x7FFE\<close>: it differs from \<open>Q15_ONE\<close> (\<open>0x7FFF\<close>)
  by one least-significant step, the truncation bias.
\<close>

theorem Q15_mult_ONE_ONE:
  "Q15_mult Q15_ONE Q15_ONE = 0x7FFE \<and>
   \<bar>sint (Q15_mult Q15_ONE Q15_ONE) - sint Q15_ONE\<bar> \<le> 1"
  by (simp add: Q15_mult_def Q15_ONE_def)

section \<open>Frequency to phase increment\<close>

lemma unat_shifted_HZ:
  assumes "unat (HZ :: 32 word) * 2 ^ 16 < 2 ^ 32"
  shows "unat (push_bit 16 HZ) = unat HZ * 2 ^ 16"
proof -
  have "unat (push_bit 16 HZ) = (unat HZ * 2 ^ 16) mod 2 ^ 32"
    by (simp add: push_bit_eq_mult unat_word_ariths)
  with assms show ?thesis by simp
qed

lemma FREQUENCY_unat:
  assumes "unat HZ * 2 ^ 16 < 2 ^ 32" and "SAMPLE_RATE \<noteq> 0"
  shows "FREQUENCY_HZtoBAM16_PER_SAMPLE HZ SAMPLE_RATE =
           Some (word_of_nat (unat HZ * 2 ^ 16 div unat SAMPLE_RATE))"
proof -
  have "unat (push_bit 16 HZ div SAMPLE_RATE) = unat HZ * 2 ^ 16 div unat SAMPLE_RATE"
    by (simp add: unat_div unat_shifted_HZ [OF assms(1)])
  then have "(ucast (push_bit 16 HZ div SAMPLE_RATE) :: 16 word) =
      word_of_nat (unat HZ * 2 ^ 16 div unat SAMPLE_RATE)"
    by (metis of_nat_unat)
  with assms(2) show ?thesis
    by (simp add: FREQUENCY_HZtoBAM16_PER_SAMPLE_def)
qed

lemma floor_quotient:
  "\<lfloor>real m * 2 ^ 16 / real n\<rfloor> = int (m * 2 ^ 16 div n)"
proof -
  have "\<lfloor>real (m * 2 ^ 16) / real n\<rfloor> = int (m * 2 ^ 16 div n)"
    by (rule floor_divide_of_nat_eq)
  then show ?thesis by simp
qed

text \<open>
  Claim C1, as the macro computes it. Where \<open>HZ * 2^16\<close> fits 32 bits and \<open>SAMPLE_RATE\<close> is
  positive, \<open>FREQUENCY_HZtoBAM16_PER_SAMPLE(HZ, SAMPLE_RATE)\<close> is the quotient
  \<open>HZ * 2^16 / SAMPLE_RATE\<close> rounded down (not to the nearest integer), reduced to 16 bits.
\<close>

theorem FREQUENCY_HZtoBAM16_PER_SAMPLE_truncates:
  assumes "unat HZ * 2 ^ 16 < 2 ^ 32" and "SAMPLE_RATE \<noteq> 0"
  shows "FREQUENCY_HZtoBAM16_PER_SAMPLE HZ SAMPLE_RATE =
           Some (word_of_int \<lfloor>real (unat HZ) * 2 ^ 16 / real (unat SAMPLE_RATE)\<rfloor>)"
proof -
  have "\<lfloor>real (unat HZ) * 2 ^ 16 / real (unat SAMPLE_RATE)\<rfloor> =
      int (unat HZ * 2 ^ 16 div unat SAMPLE_RATE)"
    by (rule floor_quotient)
  then show ?thesis
    by (simp only: FREQUENCY_unat [OF assms] of_int_of_nat_eq)
qed


theorem FREQUENCY_HZtoBAM16_PER_SAMPLE_truncates_witness:
  "unat (2 :: 32 word) * 2 ^ 16 < 2 ^ 32 \<and> (3 :: 32 word) \<noteq> 0 \<and>
   FREQUENCY_HZtoBAM16_PER_SAMPLE 2 3 = Some 43690 \<and>
   (word_of_int \<lfloor>real (unat (2 :: 32 word)) * 2 ^ 16 / real (unat (3 :: 32 word))\<rfloor> :: 16 word)
     = 43690"
  using FREQUENCY_HZtoBAM16_PER_SAMPLE_truncates [of 2 3]
  by (simp add: FREQUENCY_HZtoBAM16_PER_SAMPLE_def)

text \<open>
  The claim as worded, with rounding to the nearest integer, fails at 2 Hz and 3 samples
  per second: \<open>2 * 2^16 / 3 = 43690.67\<close>, the nearest integer is 43691, the macro gives
  43690.
\<close>

theorem FREQUENCY_HZtoBAM16_PER_SAMPLE_not_rounded:
  "unat (2 :: 32 word) * 2 ^ 16 < 2 ^ 32 \<and> (3 :: 32 word) \<noteq> 0 \<and>
   FREQUENCY_HZtoBAM16_PER_SAMPLE 2 3 = Some 43690 \<and>
   rounded_increment 2 3 = 43691 \<and>
   FREQUENCY_HZtoBAM16_PER_SAMPLE 2 3 \<noteq> Some (rounded_increment 2 3)"
  by (simp add: FREQUENCY_HZtoBAM16_PER_SAMPLE_def rounded_increment_def round_def)

section \<open>Quadrants\<close>

lemma and_exp_cases:
  "(x :: 'a::len word) AND 2 ^ n = (if bit x n then 2 ^ n else 0)"
  by (rule bit_eqI) (auto simp: bit_and_iff bit_exp_iff)

lemma unat16_bound: "unat (x :: 16 word) < 65536"
  using unsigned_less [of x, where ?'a = nat] by simp

lemma bit_word_odd_unat: "bit (x :: 'a::len word) n \<longleftrightarrow> odd (unat x div 2 ^ n)"
proof -
  have "bit (unat x) n \<longleftrightarrow> bit x n"
    by (simp add: bit_unsigned_iff)
  then show ?thesis by (simp add: bit_nat_def)
qed

lemma div_32768: "(n :: nat) < 65536 \<Longrightarrow> n div 32768 = (if n < 32768 then 0 else 1)"
  by (simp add: div_nat_eqI)

lemma div_16384:
  "(n :: nat) < 65536 \<Longrightarrow>
     n div 16384 = (if n < 16384 then 0 else if n < 32768 then 1 else if n < 49152 then 2 else 3)"
  by (simp add: div_nat_eqI)

lemma bit15_iff: "bit (x :: 16 word) 15 \<longleftrightarrow> 32768 \<le> unat x"
  using bit_word_odd_unat [of x 15] div_32768 [OF unat16_bound [of x]] by (simp add: not_less)

lemma bit14_iff:
  "bit (x :: 16 word) 14 \<longleftrightarrow>
     (16384 \<le> unat x \<and> unat x < 32768) \<or> 49152 \<le> unat x"
  using bit_word_odd_unat [of x 14] div_16384 [OF unat16_bound [of x]]
  by (simp add: not_less split: if_splits)


lemma and_0x8000: "(x :: 16 word) AND 0x8000 = (if 32768 \<le> unat x then 0x8000 else 0)"
  using and_exp_cases [of x 15] by (simp add: bit15_iff)

lemma and_0x4000:
  "(x :: 16 word) AND 0x4000 =
     (if (16384 \<le> unat x \<and> unat x < 32768) \<or> 49152 \<le> unat x then 0x4000 else 0)"
  using and_exp_cases [of x 14] by (simp add: bit14_iff)

lemma and_0xC000:
  "(x :: 16 word) AND 0xC000 =
     (if unat x < 16384 then 0 else if unat x < 32768 then 0x4000
      else if unat x < 49152 then 0x8000 else 0xC000)"
proof -
  have "(0xC000 :: 16 word) = 0x8000 OR 0x4000" by simp
  then have "x AND 0xC000 = (x AND 0x8000) OR (x AND 0x4000)"
    by (simp only: bit.conj_disj_distrib)
  then show ?thesis
    by (simp add: and_0x8000 and_0x4000)
qed

lemma mod_65536:
  "(n :: nat) < 131072 \<Longrightarrow> n mod 65536 = (if n < 65536 then n else n - 65536)"
  by (simp add: mod_if)

lemma unat_plus_0x4000:
  "unat ((x :: 16 word) + 0x4000) = (if unat x < 49152 then unat x + 16384 else unat x - 49152)"
proof -
  have "unat (x + 0x4000) = (unat x + 16384) mod 65536"
    by (simp add: unat_word_ariths)
  also have "\<dots> = (if unat x < 49152 then unat x + 16384 else unat x - 49152)"
    using unat16_bound [of x] by (simp add: mod_65536)
  finally show ?thesis .
qed

lemma unat_minus_0x4000:
  "unat ((x :: 16 word) - 0x4000) = (if unat x < 16384 then unat x + 49152 else unat x - 16384)"
proof -
  have "x - 0x4000 = x + 0xC000" by simp
  then have "unat (x - 0x4000) = (unat x + 49152) mod 65536"
    by (simp only: unat_word_ariths) simp
  also have "\<dots> = (if unat x < 16384 then unat x + 49152 else unat x - 16384)"
    using unat16_bound [of x] by (simp add: mod_65536)
  finally show ?thesis .
qed

lemma Quad1_iff: "BAM16_Quad1 x \<longleftrightarrow> unat x < 0x4000"
  by (simp add: BAM16_Quad1_def and_0xC000)

lemma Quad2_iff: "BAM16_Quad2 x \<longleftrightarrow> 0x4000 \<le> unat x \<and> unat x < 0x8000"
  by (simp add: BAM16_Quad2_def and_0xC000 not_less)

lemma Quad3_iff: "BAM16_Quad3 x \<longleftrightarrow> 0x8000 \<le> unat x \<and> unat x < 0xC000"
  by (simp add: BAM16_Quad3_def and_0xC000 not_less)

lemma Quad4_iff: "BAM16_Quad4 x \<longleftrightarrow> 0xC000 \<le> unat x \<and> unat x < 0x10000"
  using unat16_bound [of x] by (simp add: BAM16_Quad4_def and_0xC000 not_less)

lemma Quad12_iff: "BAM16_Quad12 x \<longleftrightarrow> unat x < 0x8000"
  by (simp add: BAM16_Quad12_def and_0x8000 not_less)

lemma Quad13_iff:
  "BAM16_Quad13 x \<longleftrightarrow> unat x < 0x4000 \<or> (0x8000 \<le> unat x \<and> unat x < 0xC000)"
  by (simp add: BAM16_Quad13_def and_0x4000 not_less) linarith

lemma Quad14_iff: "BAM16_Quad14 x \<longleftrightarrow> unat x < 0x4000 \<or> 0xC000 \<le> unat x"
  using unat16_bound [of x]
  by (simp add: BAM16_Quad14_def Quad12_iff unat_plus_0x4000 not_less) linarith

lemma Quad23_iff: "BAM16_Quad23 x \<longleftrightarrow> 0x4000 \<le> unat x \<and> unat x < 0xC000"
  by (simp add: BAM16_Quad23_def Quad12_iff unat_minus_0x4000 not_less) linarith


text \<open>
  Claim C4. The four quadrant tests hold exactly on the four quarters of the 16-bit
  range, exactly one of them holds for every angle, and each of the six union tests
  holds exactly when one of its two quadrants does.
\<close>

theorem BAM16_quadrants:
  "(BAM16_Quad1 x \<longleftrightarrow> unat x < 0x4000) \<and>
   (BAM16_Quad2 x \<longleftrightarrow> 0x4000 \<le> unat x \<and> unat x < 0x8000) \<and>
   (BAM16_Quad3 x \<longleftrightarrow> 0x8000 \<le> unat x \<and> unat x < 0xC000) \<and>
   (BAM16_Quad4 x \<longleftrightarrow> 0xC000 \<le> unat x \<and> unat x < 0x10000) \<and>
   length (filter (\<lambda>q. q x) [BAM16_Quad1, BAM16_Quad2, BAM16_Quad3, BAM16_Quad4]) = 1 \<and>
   (BAM16_Quad12 x \<longleftrightarrow> BAM16_Quad1 x \<or> BAM16_Quad2 x) \<and>
   (BAM16_Quad13 x \<longleftrightarrow> BAM16_Quad1 x \<or> BAM16_Quad3 x) \<and>
   (BAM16_Quad14 x \<longleftrightarrow> BAM16_Quad1 x \<or> BAM16_Quad4 x) \<and>
   (BAM16_Quad23 x \<longleftrightarrow> BAM16_Quad2 x \<or> BAM16_Quad3 x) \<and>
   (BAM16_Quad24 x \<longleftrightarrow> BAM16_Quad2 x \<or> BAM16_Quad4 x) \<and>
   (BAM16_Quad34 x \<longleftrightarrow> BAM16_Quad3 x \<or> BAM16_Quad4 x)"
proof -
  consider (q1) "unat x < 0x4000"
    | (q2) "0x4000 \<le> unat x" "unat x < 0x8000"
    | (q3) "0x8000 \<le> unat x" "unat x < 0xC000"
    | (q4) "0xC000 \<le> unat x" "unat x < 0x10000"
    using unat16_bound [of x] by fastforce
  then show ?thesis
  proof cases
    case q1
    then show ?thesis
      by (simp add: BAM16_Quad24_def BAM16_Quad34_def Quad1_iff Quad2_iff Quad3_iff Quad4_iff
          Quad12_iff Quad13_iff Quad14_iff Quad23_iff)
  next
    case q2
    then show ?thesis
      by (simp add: BAM16_Quad24_def BAM16_Quad34_def Quad1_iff Quad2_iff Quad3_iff Quad4_iff
          Quad12_iff Quad13_iff Quad14_iff Quad23_iff)
  next
    case q3
    then show ?thesis
      by (simp add: BAM16_Quad24_def BAM16_Quad34_def Quad1_iff Quad2_iff Quad3_iff Quad4_iff
          Quad12_iff Quad13_iff Quad14_iff Quad23_iff)
  next
    case q4
    then show ?thesis
      by (simp add: BAM16_Quad24_def BAM16_Quad34_def Quad1_iff Quad2_iff Quad3_iff Quad4_iff
          Quad12_iff Quad13_iff Quad14_iff Quad23_iff)
  qed
qed

section \<open>Angle conversions\<close>

lemma unat8_bound: "unat (v :: 8 word) < 256"
  using unsigned_less [of v, where ?'a = nat] by simp

lemma unat_BAM8toBAM16: "unat (BAM8toBAM16 v) = unat v * 256"
proof -
  have "unat (BAM8toBAM16 v) = (unat v * 256) mod 65536"
    using unat8_bound [of v]
    by (simp add: BAM8toBAM16_def push_bit_eq_mult unat_word_ariths unsigned_ucast_eq take_bit_eq_mod)
  then show ?thesis using unat8_bound [of v] by simp
qed

lemma unat_BAM16toBAM8: "unat (BAM16toBAM8 w) = unat w div 256"
proof -
  have "unat w div 256 < 256"
    using unat16_bound [of w] by (simp add: less_mult_imp_div_less)
  then show ?thesis 
    by (simp add: BAM16toBAM8_def unsigned_ucast_eq take_bit_eq_mod unat_drop_bit_eq drop_bit_eq_div unat_div)
qed

text \<open>
  Claim C6. \<open>BAM8toBAM16(v)\<close> is \<open>v * 256\<close>, \<open>BAM16toBAM8(w)\<close> is \<open>w / 256\<close> truncated (the low
  8 bits are dropped), and converting a \<open>BAM8\<close> angle to \<open>BAM16\<close> and back gives the angle
  again.
\<close>

theorem BAM8_BAM16_round_trip:
  "unat (BAM8toBAM16 v) = unat v * 256 \<and>
   unat (BAM16toBAM8 w) = unat w div 256 \<and>
   BAM16toBAM8 (BAM8toBAM16 v) = v"
proof -
  have "unat (BAM16toBAM8 (BAM8toBAM16 v)) = unat v"
    by (simp add: unat_BAM16toBAM8 unat_BAM8toBAM16)
  then have "BAM16toBAM8 (BAM8toBAM16 v) = v"
    by (simp add: word_unat_eq_iff)
  then show ?thesis
    by (simp add: unat_BAM16toBAM8 unat_BAM8toBAM16)
qed

text \<open>
  \<open>DEG2BAM16\<close> where \<open>int\<close> has 32 bits: the values that the table in the header comment
  of \<^verbatim>\<open>DSP.h\<close> lists (\<open>360 \<mapsto> 0x0000\<close>, \<open>-90 \<mapsto> 0xC000\<close>, \<open>270 \<mapsto> 0xC000\<close>,
  \<open>-180 \<mapsto> 0x8000\<close>, \<open>180 \<mapsto> 0x8000\<close>).
\<close>

lemma DEG2BAM16_Int32_values:
  "DEG2BAM16 Int32 360 = Some 0x0000 \<and> DEG2BAM16 Int32 0 = Some 0x0000 \<and>
   DEG2BAM16 Int32 (- 90) = Some 0xC000 \<and> DEG2BAM16 Int32 270 = Some 0xC000 \<and>
   DEG2BAM16 Int32 (- 180) = Some 0x8000 \<and> DEG2BAM16 Int32 180 = Some 0x8000"
  by (simp add: DEG2BAM16_def int_fits_def int_bits_def BAM16_45_DEGREES_def
      BAM16_90_DEGREES_def signed_divide_int_def)

text \<open>Addition and subtraction of \<open>BAM16\<close> angles wrap at 16 bits and cancel exactly.\<close>

lemma BAM16_add_sub_cancel: "((a :: BAM16) + b) - b = a"
  by simp

text \<open>
  Claim C5, where \<open>int\<close> has 16 bits. The claim and the table in the header comment of
  \<^verbatim>\<open>DSP.h\<close> give \<open>DEG2BAM16(270) = DEG2BAM16(-90) = 0xC000\<close> and
  \<open>DEG2BAM16(180) = DEG2BAM16(-180) = 0x8000\<close>. With a 16-bit \<open>int\<close> the product
  \<open>X * 0x2000\<close> is computed in \<open>unsigned int\<close> and wraps before the division:
  \<open>270 * 8192 mod 65536 = 49152\<close> and \<open>49152 / 45 = 1092 = 0x0444\<close>;
  \<open>180 * 8192 mod 65536 = 32768\<close> and \<open>32768 / 45 = 728 = 0x02D8\<close>. Angles that differ by
  a whole turn still get equal values, and 0 and 360 degrees still give \<open>0x0000\<close>. The
  sibling macros \<open>FREQUENCY_HZtoBAM16_PER_SAMPLE\<close> and \<open>Q15_mult\<close> widen their operands
  to 32 bits before they shift or multiply; \<open>DEG2BAM16\<close> does not.
\<close>

theorem DEG2BAM16_Int16_values:
  "DEG2BAM16 Int16 360 = Some 0x0000 \<and> DEG2BAM16 Int16 0 = Some 0x0000 \<and>
   DEG2BAM16 Int16 (- 90) = Some 0x0444 \<and> DEG2BAM16 Int16 270 = Some 0x0444 \<and>
   DEG2BAM16 Int16 (- 180) = Some 0x02D8 \<and> DEG2BAM16 Int16 180 = Some 0x02D8"
  by (simp add: DEG2BAM16_def int_fits_def int_bits_def BAM16_45_DEGREES_def
      BAM16_90_DEGREES_def)

section \<open>The circular sample buffer\<close>

lemma uint8_bound: "uint (w :: 8 word) < 256"
  using uint_bounded [of w] by simp

lemma uint8_not: "uint (NOT w :: 8 word) = 255 - uint w"
proof -
  have "NOT w = - 1 - w"
    by (simp add: not_eq_complement)
  then have "uint (NOT w) = (255 - uint w) mod 256"
    by (simp only: uint_word_ariths) simp
  moreover have "0 \<le> 255 - uint w" and "255 - uint w < 256"
    using uint8_bound [of w] uint_ge_0 [of w] by linarith+
  ultimately show ?thesis
    by (simp only: mod_pos_pos_trivial)
qed

lemma SampleBuffer_size_range: "0 \<le> SampleBuffer_size sb \<and> SampleBuffer_size sb \<le> 255"
  using uint8_bound [of "in_idx sb - out_idx sb"] by (simp add: SampleBuffer_size_def)

lemma SampleBuffer_free_eq: "SampleBuffer_free sb = 255 - SampleBuffer_size sb"
proof -
  have "NOT (in_idx sb) + out_idx sb = NOT (in_idx sb - out_idx sb)"
    by (simp add: not_eq_complement)
  then show ?thesis
    by (simp add: SampleBuffer_free_def SampleBuffer_size_def uint8_not)
qed

lemma uint8_succ: "uint (w :: 8 word) < 255 \<Longrightarrow> uint (w + 1) = uint w + 1"
  by (simp add: uint_word_ariths)

lemma uint8_pred: "0 < uint (w :: 8 word) \<Longrightarrow> uint (w - 1) = uint w - 1"
  using uint8_bound [of w] by (simp add: uint_word_ariths)

lemma SampleBuffer_size_push:
  assumes "SampleBuffer_size sb < 255"
  shows "SampleBuffer_size (SampleBuffer_push sb s) = SampleBuffer_size sb + 1"
proof -
  have eq: "in_idx sb + 1 - out_idx sb = in_idx sb - out_idx sb + 1"
    by simp
  have "SampleBuffer_size (SampleBuffer_push sb s) = uint (in_idx sb + 1 - out_idx sb)"
    by (simp add: SampleBuffer_size_def SampleBuffer_push_def)
  also have "\<dots> = uint (in_idx sb - out_idx sb + 1)"
    by (simp only: eq)
  also have "\<dots> = uint (in_idx sb - out_idx sb) + 1"
    using assms by (simp only: SampleBuffer_size_def uint8_succ)
  finally show ?thesis
    by (simp only: SampleBuffer_size_def)
qed

lemma SampleBuffer_size_pop:
  assumes "0 < SampleBuffer_size sb"
  shows "SampleBuffer_size (snd (SampleBuffer_pop sb)) = SampleBuffer_size sb - 1"
proof -
  have eq: "in_idx sb - (out_idx sb + 1) = in_idx sb - out_idx sb - 1"
    by simp
  have "SampleBuffer_size (snd (SampleBuffer_pop sb)) = uint (in_idx sb - (out_idx sb + 1))"
    by (simp add: SampleBuffer_size_def SampleBuffer_pop_def)
  also have "\<dots> = uint (in_idx sb - out_idx sb - 1)"
    by (simp only: eq)
  also have "\<dots> = uint (in_idx sb - out_idx sb) - 1"
    using assms by (simp only: SampleBuffer_size_def uint8_pred)
  finally show ?thesis
    by (simp only: SampleBuffer_size_def)
qed

text \<open>The cell at offset \<open>size\<close> from \<open>out\<close> is the cell at \<open>in\<close>; the cells at smaller offsets are others.\<close>

lemma out_plus_size: "out_idx sb + of_nat (nat (SampleBuffer_size sb)) = in_idx sb"
  by (simp add: SampleBuffer_size_def)

lemma of_nat8_inj:
  "m < 256 \<Longrightarrow> n < 256 \<Longrightarrow> (of_nat m :: 8 word) = of_nat n \<Longrightarrow> m = n"
  by (simp add: word_of_nat_eq_iff take_bit_eq_mod)

lemma out_plus_less:
  assumes "k < nat (SampleBuffer_size sb)"
  shows "out_idx sb + of_nat k \<noteq> in_idx sb"
proof
  assume "out_idx sb + of_nat k = in_idx sb"
  then have "out_idx sb + of_nat k = out_idx sb + of_nat (nat (SampleBuffer_size sb))"
    by (simp only: out_plus_size)
  then have "(of_nat k :: 8 word) = of_nat (nat (SampleBuffer_size sb))"
    by simp
  moreover have "nat (SampleBuffer_size sb) < 256"
    using SampleBuffer_size_range [of sb] by linarith
  moreover have "k < 256"
    using assms \<open>nat (SampleBuffer_size sb) < 256\<close> by linarith
  ultimately have "k = nat (SampleBuffer_size sb)"
    by (intro of_nat8_inj)
  with assms show False by simp
qed

lemma SampleBuffer_contents_push:
  assumes "SampleBuffer_size sb < 255"
  shows "SampleBuffer_contents (SampleBuffer_push sb s) = SampleBuffer_contents sb @ [s]"
proof -
  let ?n = "nat (SampleBuffer_size sb)"
  have n: "nat (SampleBuffer_size (SampleBuffer_push sb s)) = Suc ?n"
    using SampleBuffer_size_range [of sb] by (simp only: SampleBuffer_size_push [OF assms]) linarith
  have old: "map (\<lambda>k. ((buff sb)(in_idx sb := s)) (out_idx sb + of_nat k)) [0..<?n] =
      map (\<lambda>k. buff sb (out_idx sb + of_nat k)) [0..<?n]"
    by (rule map_cong) (simp_all add: out_plus_less)
  have new: "((buff sb)(in_idx sb := s)) (out_idx sb + of_nat ?n) = s"
    by (simp only: out_plus_size) simp
  show ?thesis
    unfolding SampleBuffer_contents_def n
    using old new by (simp add: SampleBuffer_push_def)
qed

lemma SampleBuffer_contents_pop:
  assumes "0 < SampleBuffer_size sb"
  shows "SampleBuffer_contents sb =
           fst (SampleBuffer_pop sb) # SampleBuffer_contents (snd (SampleBuffer_pop sb))"
proof -
  let ?n = "nat (SampleBuffer_size sb)"
  obtain m where m: "?n = Suc m"
    using assms by (cases ?n) simp_all
  have n': "nat (SampleBuffer_size (snd (SampleBuffer_pop sb))) = m"
    using m by (simp add: SampleBuffer_size_pop [OF assms])
  have "[0..<Suc m] = 0 # map Suc [0..<m]"
    by (simp add: upt_conv_Cons map_Suc_upt del: upt_Suc)
  then have "SampleBuffer_contents sb =
      buff sb (out_idx sb) # map (\<lambda>k. buff sb (out_idx sb + of_nat (Suc k))) [0..<m]"
    unfolding SampleBuffer_contents_def m by (simp add: comp_def del: upt_Suc of_nat_Suc)
  moreover have "SampleBuffer_contents (snd (SampleBuffer_pop sb)) =
      map (\<lambda>k. buff sb (out_idx sb + of_nat (Suc k))) [0..<m]"
    unfolding SampleBuffer_contents_def n' by (simp add: SampleBuffer_pop_def ac_simps)
  ultimately show ?thesis
    by (simp add: SampleBuffer_pop_def)
qed


lemma pushAllOrNothing_loop_run:
  assumes "0 \<le> i" and "i \<le> count" and "count \<le> int (length buf)"
    and "count - i \<le> SampleBuffer_free sb"
  shows "\<exists>sb'. pushAllOrNothing_loop i count sb buf = Some sb' \<and>
           SampleBuffer_contents sb' =
             SampleBuffer_contents sb @ drop (nat i) (take (nat count) buf) \<and>
           out_idx sb' = out_idx sb \<and>
           SampleBuffer_size sb' = SampleBuffer_size sb + (count - i)"
  using assms
proof (induction i count sb buf rule: pushAllOrNothing_loop.induct)
  case (1 i count sb buf)
  show ?case
  proof (cases "i < count")
    case False
    with "1.prems" have "i = count" by simp
    then show ?thesis
      by (subst pushAllOrNothing_loop.simps) simp
  next
    case True
    let ?sb1 = "SampleBuffer_push sb (buf ! nat i)"
    have inb: "nat i < length buf"
      using True "1.prems" by linarith
    have room: "SampleBuffer_size sb < 255"
      using True "1.prems" by (simp add: SampleBuffer_free_eq)
    have size1: "SampleBuffer_size ?sb1 = SampleBuffer_size sb + 1"
      by (rule SampleBuffer_size_push [OF room])
    have "\<exists>sb'. pushAllOrNothing_loop (i + 1) count ?sb1 buf = Some sb' \<and>
           SampleBuffer_contents sb' =
             SampleBuffer_contents ?sb1 @ drop (nat (i + 1)) (take (nat count) buf) \<and>
           out_idx sb' = out_idx ?sb1 \<and>
           SampleBuffer_size sb' = SampleBuffer_size ?sb1 + (count - (i + 1))"
      using True inb "1.prems" size1
      by (intro "1.IH") (simp_all add: SampleBuffer_free_eq)
    then obtain sb' where run: "pushAllOrNothing_loop (i + 1) count ?sb1 buf = Some sb'"
      and cont: "SampleBuffer_contents sb' =
             SampleBuffer_contents ?sb1 @ drop (nat (i + 1)) (take (nat count) buf)"
      and out: "out_idx sb' = out_idx ?sb1"
      and size: "SampleBuffer_size sb' = SampleBuffer_size ?sb1 + (count - (i + 1))"
      by blast
    have nth: "nat i < length (take (nat count) buf)" "take (nat count) buf ! nat i = buf ! nat i"
      using True inb "1.prems" by simp_all
    have "drop (nat i) (take (nat count) buf) =
        buf ! nat i # drop (Suc (nat i)) (take (nat count) buf)"
      using Cons_nth_drop_Suc [OF nth(1)] nth(2) by simp
    moreover have "nat (i + 1) = Suc (nat i)"
      using "1.prems" by linarith
    ultimately have "SampleBuffer_contents sb' =
        SampleBuffer_contents sb @ drop (nat i) (take (nat count) buf)"
      using cont by (simp add: SampleBuffer_contents_push [OF room])
    moreover have "pushAllOrNothing_loop i count sb buf = Some sb'"
      using True inb run by (subst pushAllOrNothing_loop.simps) simp
    moreover have "out_idx sb' = out_idx sb"
      using out by (simp add: SampleBuffer_push_def)
    moreover have "SampleBuffer_size sb' = SampleBuffer_size sb + (count - i)"
      using size size1 by simp
    ultimately show ?thesis by blast
  qed
qed

lemma popAllOrNothing_loop_run:
  assumes "0 \<le> i" and "i \<le> count" and "count \<le> int (length buf)"
    and "count - i \<le> SampleBuffer_size sb"
  shows "popAllOrNothing_loop i count sb buf =
           Some (sb\<lparr>out_idx := out_idx sb + of_int (count - i)\<rparr>,
                 take (nat i) buf @ take (nat (count - i)) (SampleBuffer_contents sb)
                   @ drop (nat count) buf) \<and>
         SampleBuffer_contents (sb\<lparr>out_idx := out_idx sb + of_int (count - i)\<rparr>) =
           drop (nat (count - i)) (SampleBuffer_contents sb)"
  using assms
proof (induction i count sb buf rule: popAllOrNothing_loop.induct)
  case (1 i count sb buf)
  show ?case
  proof (cases "i < count")
    case False
    with "1.prems" have "i = count" by simp
    then show ?thesis
      by (subst popAllOrNothing_loop.simps) simp
  next
    case True
    let ?x = "fst (SampleBuffer_pop sb)"
    let ?sb1 = "snd (SampleBuffer_pop sb)"
    let ?buf1 = "buf[nat i := ?x]"
    have inb: "nat i < length buf"
      using True "1.prems" by linarith
    have some: "0 < SampleBuffer_size sb"
      using True "1.prems" by simp
    have size1: "SampleBuffer_size ?sb1 = SampleBuffer_size sb - 1"
      by (rule SampleBuffer_size_pop [OF some])
    have cont: "SampleBuffer_contents sb = ?x # SampleBuffer_contents ?sb1"
      by (rule SampleBuffer_contents_pop [OF some])
    have "popAllOrNothing_loop (i + 1) count ?sb1 ?buf1 =
           Some (?sb1\<lparr>out_idx := out_idx ?sb1 + of_int (count - (i + 1))\<rparr>,
                 take (nat (i + 1)) ?buf1 @ take (nat (count - (i + 1))) (SampleBuffer_contents ?sb1)
                   @ drop (nat count) ?buf1) \<and>
         SampleBuffer_contents (?sb1\<lparr>out_idx := out_idx ?sb1 + of_int (count - (i + 1))\<rparr>) =
           drop (nat (count - (i + 1))) (SampleBuffer_contents ?sb1)"
      using True inb "1.prems" size1
      by (intro "1.IH") simp_all
    then have IH: "popAllOrNothing_loop (i + 1) count ?sb1 ?buf1 =
           Some (?sb1\<lparr>out_idx := out_idx ?sb1 + of_int (count - (i + 1))\<rparr>,
                 take (nat (i + 1)) ?buf1 @ take (nat (count - (i + 1))) (SampleBuffer_contents ?sb1)
                   @ drop (nat count) ?buf1)"
      and IH2: "SampleBuffer_contents (?sb1\<lparr>out_idx := out_idx ?sb1 + of_int (count - (i + 1))\<rparr>) =
           drop (nat (count - (i + 1))) (SampleBuffer_contents ?sb1)"
      by simp_all
    have suc: "nat (i + 1) = Suc (nat i)"
      using "1.prems" by linarith
    have cnt: "nat (count - i) = Suc (nat (count - (i + 1)))"
      using True by linarith
    have "take (nat (i + 1)) ?buf1 = take (nat i) buf @ [?x]"
      using inb by (simp add: suc take_Suc_conv_app_nth)
    moreover have "drop (nat count) ?buf1 = drop (nat count) buf"
      using True "1.prems" by (simp add: drop_update_cancel)
    moreover have "take (nat (count - i)) (SampleBuffer_contents sb) =
        ?x # take (nat (count - (i + 1))) (SampleBuffer_contents ?sb1)"
      by (subst cont) (simp only: cnt take_Suc_Cons)
    moreover have final: "?sb1\<lparr>out_idx := out_idx ?sb1 + of_int (count - (i + 1))\<rparr> =
        sb\<lparr>out_idx := out_idx sb + of_int (count - i)\<rparr>"
      by (simp add: SampleBuffer_pop_def)
    ultimately have "popAllOrNothing_loop (i + 1) count ?sb1 ?buf1 =
        Some (sb\<lparr>out_idx := out_idx sb + of_int (count - i)\<rparr>,
              take (nat i) buf @ take (nat (count - i)) (SampleBuffer_contents sb)
                @ drop (nat count) buf)"
      using IH by simp
    then have "popAllOrNothing_loop i count sb buf =
        Some (sb\<lparr>out_idx := out_idx sb + of_int (count - i)\<rparr>,
              take (nat i) buf @ take (nat (count - i)) (SampleBuffer_contents sb)
                @ drop (nat count) buf)"
      using True inb by (subst popAllOrNothing_loop.simps) simp
    moreover have "drop (nat (count - i)) (SampleBuffer_contents sb) =
        drop (nat (count - (i + 1))) (SampleBuffer_contents ?sb1)"
      by (subst cont) (simp only: cnt drop_Suc_Cons)
    then have "SampleBuffer_contents (sb\<lparr>out_idx := out_idx sb + of_int (count - i)\<rparr>) =
        drop (nat (count - i)) (SampleBuffer_contents sb)"
      using IH2 unfolding final by simp
    ultimately show ?thesis by simp
  qed
qed

lemma size_plus_free_255: "SampleBuffer_size sb + SampleBuffer_free sb = 255"
  by (simp add: SampleBuffer_free_eq)

lemma length_SampleBuffer_contents:
  "length (SampleBuffer_contents sb) = nat (SampleBuffer_size sb)"
  by (simp add: SampleBuffer_contents_def)

lemma SampleBuffer_popAllOrNothing_all:
  assumes "0 \<le> count" and "count \<le> SampleBuffer_size sb" and "count \<le> int (length buf)"
  shows "SampleBuffer_popAllOrNothing sb buf count =
           Some (count, sb\<lparr>out_idx := out_idx sb + of_int count\<rparr>,
                 take (nat count) (SampleBuffer_contents sb) @ drop (nat count) buf)"
    and "SampleBuffer_contents (sb\<lparr>out_idx := out_idx sb + of_int count\<rparr>) =
           drop (nat count) (SampleBuffer_contents sb)"
  using popAllOrNothing_loop_run [of 0 count buf sb] assms
  by (simp_all add: SampleBuffer_popAllOrNothing_def)

lemma SampleBuffer_pushAllOrNothing_all:
  assumes "0 \<le> count" and "count \<le> SampleBuffer_free sb" and "count \<le> int (length buf)"
  shows "\<exists>sb'. SampleBuffer_pushAllOrNothing sb buf count = Some (count, sb') \<and>
           SampleBuffer_contents sb' = SampleBuffer_contents sb @ take (nat count) buf \<and>
           out_idx sb' = out_idx sb \<and>
           SampleBuffer_size sb' = SampleBuffer_size sb + count"
proof -
  obtain sb' where "pushAllOrNothing_loop 0 count sb buf = Some sb'"
    and "SampleBuffer_contents sb' = SampleBuffer_contents sb @ drop (nat 0) (take (nat count) buf)"
    and "out_idx sb' = out_idx sb"
    and "SampleBuffer_size sb' = SampleBuffer_size sb + (count - 0)"
    using pushAllOrNothing_loop_run [of 0 count buf sb] assms by auto
  with assms(2) show ?thesis
    by (simp add: SampleBuffer_pushAllOrNothing_def)
qed

text \<open>
  Claim C2. For every buffer state and every non-negative \<open>count\<close>:
  \<open>SampleBuffer_popAllOrNothing\<close> returns 0 and changes neither the buffer nor the
  caller's array when fewer than \<open>count\<close> samples are stored; otherwise it returns
  \<open>count\<close>, writes the \<open>count\<close> oldest samples, oldest first, to the first \<open>count\<close>
  cells of the caller's array and leaves the remaining samples in the buffer (only \<open>out\<close>
  changes). \<open>SampleBuffer_pushAllOrNothing\<close> returns 0 and leaves the buffer unchanged
  when fewer than \<open>count\<close> cells are free; otherwise it returns \<open>count\<close> and appends the
  first \<open>count\<close> samples of the caller's array, in order, behind the stored ones. There
  is no third outcome, so no transfer is partial. (The caller's array must hold
  \<open>count\<close> cells where samples are transferred.)
\<close>

theorem SampleBuffer_all_or_nothing:
  assumes "0 \<le> count"
  shows
    "length (SampleBuffer_contents sb) = nat (SampleBuffer_size sb) \<and>
     (SampleBuffer_size sb < count \<longrightarrow>
        SampleBuffer_popAllOrNothing sb dst count = Some (0, sb, dst)) \<and>
     (count \<le> SampleBuffer_size sb \<and> count \<le> int (length dst) \<longrightarrow>
        SampleBuffer_popAllOrNothing sb dst count =
          Some (count, sb\<lparr>out_idx := out_idx sb + of_int count\<rparr>,
                take (nat count) (SampleBuffer_contents sb) @ drop (nat count) dst) \<and>
        SampleBuffer_contents (sb\<lparr>out_idx := out_idx sb + of_int count\<rparr>) =
          drop (nat count) (SampleBuffer_contents sb)) \<and>
     (SampleBuffer_free sb < count \<longrightarrow>
        SampleBuffer_pushAllOrNothing sb src count = Some (0, sb)) \<and>
     (count \<le> SampleBuffer_free sb \<and> count \<le> int (length src) \<longrightarrow>
        (\<exists>sb'. SampleBuffer_pushAllOrNothing sb src count = Some (count, sb') \<and>
           SampleBuffer_contents sb' = SampleBuffer_contents sb @ take (nat count) src \<and>
           out_idx sb' = out_idx sb \<and>
           SampleBuffer_size sb' = SampleBuffer_size sb + count))"
proof (intro conjI impI)
  show "length (SampleBuffer_contents sb) = nat (SampleBuffer_size sb)"
    by (rule length_SampleBuffer_contents)
next
  assume "SampleBuffer_size sb < count"
  then show "SampleBuffer_popAllOrNothing sb dst count = Some (0, sb, dst)"
    by (simp add: SampleBuffer_popAllOrNothing_def)
next
  assume "SampleBuffer_free sb < count"
  then show "SampleBuffer_pushAllOrNothing sb src count = Some (0, sb)"
    by (simp add: SampleBuffer_pushAllOrNothing_def)
next
  assume a: "count \<le> SampleBuffer_size sb \<and> count \<le> int (length dst)"
  then show "SampleBuffer_popAllOrNothing sb dst count =
          Some (count, sb\<lparr>out_idx := out_idx sb + of_int count\<rparr>,
                take (nat count) (SampleBuffer_contents sb) @ drop (nat count) dst)"
    using assms by (simp add: SampleBuffer_popAllOrNothing_all)
  from a show "SampleBuffer_contents (sb\<lparr>out_idx := out_idx sb + of_int count\<rparr>) =
          drop (nat count) (SampleBuffer_contents sb)"
    using assms SampleBuffer_popAllOrNothing_all(2) [of count sb dst] by simp
next
  assume "count \<le> SampleBuffer_free sb \<and> count \<le> int (length src)"
  then show "\<exists>sb'. SampleBuffer_pushAllOrNothing sb src count = Some (count, sb') \<and>
           SampleBuffer_contents sb' = SampleBuffer_contents sb @ take (nat count) src \<and>
           out_idx sb' = out_idx sb \<and>
           SampleBuffer_size sb' = SampleBuffer_size sb + count"
    using assms SampleBuffer_pushAllOrNothing_all [of count sb src] by blast
qed

lemma example_buffer_size:
  "SampleBuffer_size example_buffer = 2" "SampleBuffer_free example_buffer = 253"
  by (simp_all add: example_buffer_def SampleBuffer_size_def SampleBuffer_free_def)

lemma example_buffer_contents:
  "SampleBuffer_contents example_buffer = [5, 7]"
  "SampleBuffer_contents (example_buffer\<lparr>out_idx := 2\<rparr>) = []"
  by (simp_all add: example_buffer_def SampleBuffer_contents_def SampleBuffer_size_def
      numeral_2_eq_2)

lemma example_buffer_out: "out_idx example_buffer = 0"
  by (simp add: example_buffer_def)

theorem SampleBuffer_all_or_nothing_witness:
  "(0::int) \<le> 2 \<and>
   2 \<le> SampleBuffer_size example_buffer \<and> 2 \<le> int (length [0, 0, 0 :: 16 word]) \<and>
   SampleBuffer_popAllOrNothing example_buffer [0, 0, 0] 2 =
     Some (2, example_buffer\<lparr>out_idx := 2\<rparr>, [5, 7, 0]) \<and>
   SampleBuffer_contents (example_buffer\<lparr>out_idx := 2\<rparr>) = [] \<and>
   2 \<le> SampleBuffer_free example_buffer \<and> 2 \<le> int (length [9, 8 :: 16 word]) \<and>
   (\<exists>sb'. SampleBuffer_pushAllOrNothing example_buffer [9, 8] 2 = Some (2, sb') \<and>
      SampleBuffer_contents sb' = [5, 7, 9, 8] \<and> out_idx sb' = 0 \<and>
      SampleBuffer_size sb' = 4) \<and>
   (0::int) \<le> 3 \<and> SampleBuffer_size example_buffer < 3 \<and>
   SampleBuffer_popAllOrNothing example_buffer [0, 0, 0] 3 = Some (0, example_buffer, [0, 0, 0]) \<and>
   (0::int) \<le> 254 \<and> SampleBuffer_free example_buffer < 254 \<and>
   SampleBuffer_pushAllOrNothing example_buffer [9, 8] 254 = Some (0, example_buffer)"
  using SampleBuffer_all_or_nothing [of 2 example_buffer "[0, 0, 0]" "[9, 8]"]
    SampleBuffer_all_or_nothing [of 3 example_buffer "[0, 0, 0]" "[9, 8]"]
    SampleBuffer_all_or_nothing [of 254 example_buffer "[0, 0, 0]" "[9, 8]"]
  by (simp add: example_buffer_size example_buffer_contents example_buffer_out)

text \<open>
  Claim C8. In every state, whatever the two indices, the used and the free space add
  up to \<open>SAMPLE_BUFFER_SIZE - 1 = 255\<close>; in particular the equation holds in the state
  that each of the five operations leaves.
\<close>

theorem SampleBuffer_size_plus_free:
  "SampleBuffer_size sb + SampleBuffer_free sb = SAMPLE_BUFFER_SIZE - 1 \<and>
   SAMPLE_BUFFER_SIZE - 1 = 255 \<and>
   SampleBuffer_size (SampleBuffer_init sb) + SampleBuffer_free (SampleBuffer_init sb) = 255 \<and>
   SampleBuffer_size (SampleBuffer_push sb s) + SampleBuffer_free (SampleBuffer_push sb s) = 255 \<and>
   SampleBuffer_size (snd (SampleBuffer_pop sb)) + SampleBuffer_free (snd (SampleBuffer_pop sb))
     = 255 \<and>
   (\<forall>r sb'. SampleBuffer_pushAllOrNothing sb src count = Some (r, sb') \<longrightarrow>
      SampleBuffer_size sb' + SampleBuffer_free sb' = 255) \<and>
   (\<forall>r sb' dst'. SampleBuffer_popAllOrNothing sb dst count = Some (r, sb', dst') \<longrightarrow>
      SampleBuffer_size sb' + SampleBuffer_free sb' = 255)"
  by (simp add: size_plus_free_255 SAMPLE_BUFFER_SIZE_def)

lemma example_buffer_push:
  "SampleBuffer_pushAllOrNothing example_buffer [9, 8] 2 =
     Some (2, \<lparr>buff = (\<lambda>_. 0)(0 := 5, 1 := 7, 2 := 9, 3 := 8), in_idx = 4, out_idx = 0\<rparr>)"
  by (simp add: example_buffer_def SampleBuffer_pushAllOrNothing_def SampleBuffer_free_def
      pushAllOrNothing_loop.simps SampleBuffer_push_def)

lemma example_buffer_pop:
  "SampleBuffer_popAllOrNothing example_buffer [0, 0, 0] 2 =
     Some (2, \<lparr>buff = (\<lambda>_. 0)(0 := 5, 1 := 7), in_idx = 2, out_idx = 2\<rparr>, [5, 7, 0])"
  by (simp add: example_buffer_def SampleBuffer_popAllOrNothing_def SampleBuffer_size_def
      popAllOrNothing_loop.simps SampleBuffer_pop_def)

theorem SampleBuffer_size_plus_free_witness:
  "SampleBuffer_pushAllOrNothing example_buffer [9, 8] 2 =
     Some (2, \<lparr>buff = (\<lambda>_. 0)(0 := 5, 1 := 7, 2 := 9, 3 := 8), in_idx = 4, out_idx = 0\<rparr>) \<and>
   SampleBuffer_size \<lparr>buff = (\<lambda>_. 0)(0 := 5, 1 := 7, 2 := 9, 3 := 8), in_idx = 4, out_idx = 0\<rparr> +
     SampleBuffer_free \<lparr>buff = (\<lambda>_. 0)(0 := 5, 1 := 7, 2 := 9, 3 := 8), in_idx = 4, out_idx = 0\<rparr>
     = 255 \<and>
   SampleBuffer_popAllOrNothing example_buffer [0, 0, 0] 2 =
     Some (2, \<lparr>buff = (\<lambda>_. 0)(0 := 5, 1 := 7), in_idx = 2, out_idx = 2\<rparr>, [5, 7, 0]) \<and>
   SampleBuffer_size \<lparr>buff = (\<lambda>_. 0)(0 := 5, 1 := 7), in_idx = 2, out_idx = 2\<rparr> +
     SampleBuffer_free \<lparr>buff = (\<lambda>_. 0)(0 := 5, 1 := 7), in_idx = 2, out_idx = 2\<rparr> = 255"
  using SampleBuffer_size_plus_free [of example_buffer 0 "[9, 8]" 2 "[0, 0, 0]"] example_buffer_push example_buffer_pop
  by simp

text \<open>
  Claim C9. Pushing a list of \<open>n \<le> 255\<close> samples into a freshly initialised buffer
  returns \<open>n\<close>, and popping \<open>n\<close> samples afterwards returns \<open>n\<close> and delivers the same
  samples in the same order to the first \<open>n\<close> cells of the caller's array.
\<close>

theorem SampleBuffer_fifo_round_trip:
  assumes "length xs \<le> 255" and "length xs \<le> length dst"
  shows "\<exists>sb1 sb2.
           SampleBuffer_pushAllOrNothing (SampleBuffer_init sb0) xs (int (length xs)) =
             Some (int (length xs), sb1) \<and>
           SampleBuffer_popAllOrNothing sb1 dst (int (length xs)) =
             Some (int (length xs), sb2, xs @ drop (length xs) dst)"
proof -
  let ?n = "int (length xs)"
  have empty: "SampleBuffer_size (SampleBuffer_init sb0) = 0"
    "SampleBuffer_contents (SampleBuffer_init sb0) = []"
    by (simp_all add: SampleBuffer_init_def SampleBuffer_size_def SampleBuffer_contents_def)
  have "?n \<le> SampleBuffer_free (SampleBuffer_init sb0)"
    using assms(1) by (simp add: SampleBuffer_free_eq empty)
  then obtain sb1 where
    push: "SampleBuffer_pushAllOrNothing (SampleBuffer_init sb0) xs ?n = Some (?n, sb1)"
    and cont: "SampleBuffer_contents sb1 = xs" and size: "SampleBuffer_size sb1 = ?n"
    using SampleBuffer_pushAllOrNothing_all [of ?n "SampleBuffer_init sb0" xs]
    by (auto simp: empty)
  have "SampleBuffer_popAllOrNothing sb1 dst ?n =
      Some (?n, sb1\<lparr>out_idx := out_idx sb1 + of_int ?n\<rparr>,
            take (nat ?n) (SampleBuffer_contents sb1) @ drop (nat ?n) dst)"
    using assms(2) size by (intro SampleBuffer_popAllOrNothing_all) simp_all
  with push cont show ?thesis by simp
qed

theorem SampleBuffer_fifo_round_trip_witness:
  "length [1, 2, 3 :: 16 word] \<le> 255 \<and> length [1, 2, 3 :: 16 word] \<le> length [0, 0, 0 :: 16 word] \<and>
   (\<exists>sb1 sb2.
      SampleBuffer_pushAllOrNothing (SampleBuffer_init example_buffer) [1, 2, 3] 3 = Some (3, sb1) \<and>
      SampleBuffer_popAllOrNothing sb1 [0, 0, 0] 3 = Some (3, sb2, [1, 2, 3]))"
  using SampleBuffer_fifo_round_trip [of "[1, 2, 3]" "[0, 0, 0]" example_buffer] by simp

lemma SampleBuffer_full_iff: "SampleBuffer_full sb \<longleftrightarrow> SampleBuffer_free sb = 0"
  by (simp add: SampleBuffer_full_def SampleBuffer_free_def uint_0_iff)

text \<open>
  Claim C10. The array has \<open>SAMPLE_BUFFER_SIZE = 256\<close> cells but at most 255 samples are
  stored: the free space is never above 255, \<open>SampleBuffer_full\<close> holds exactly when 255
  samples are stored, and pushing 256 samples at once returns 0 in every state, the
  empty one included.
\<close>

theorem SampleBuffer_capacity:
  "SAMPLE_BUFFER_SIZE = 256 \<and>
   SampleBuffer_free sb \<le> 255 \<and>
   (SampleBuffer_full sb \<longleftrightarrow> SampleBuffer_size sb = 255) \<and>
   SampleBuffer_pushAllOrNothing sb buf SAMPLE_BUFFER_SIZE = Some (0, sb) \<and>
   SampleBuffer_size (SampleBuffer_init sb) = 0 \<and>
   SampleBuffer_pushAllOrNothing (SampleBuffer_init sb) buf SAMPLE_BUFFER_SIZE =
     Some (0, SampleBuffer_init sb)"
proof -
  have "SampleBuffer_free s < 256" for s
    using SampleBuffer_size_range [of s] by (simp add: SampleBuffer_free_eq)
  then have "SampleBuffer_pushAllOrNothing s buf SAMPLE_BUFFER_SIZE = Some (0, s)" for s
    by (simp add: SampleBuffer_pushAllOrNothing_def SAMPLE_BUFFER_SIZE_def)
  moreover have "SampleBuffer_free sb \<le> 255"
    using SampleBuffer_size_range [of sb] by (simp add: SampleBuffer_free_eq)
  moreover have "SampleBuffer_full sb \<longleftrightarrow> SampleBuffer_size sb = 255"
    by (auto simp add: SampleBuffer_full_iff SampleBuffer_free_eq)
  moreover have "SampleBuffer_size (SampleBuffer_init sb) = 0"
    by (simp add: SampleBuffer_init_def SampleBuffer_size_def)
  ultimately show ?thesis
    by (simp add: SAMPLE_BUFFER_SIZE_def)
qed

end
